theory Spec2Isabelle
  imports Main "HOL-Library.Word"
begin

section \<open>The word-table generator \<^verbatim>\<open>plaintext/newline_to_null.py\<close>\<close>

text \<open>
  The script reads \<^verbatim>\<open>NUMBER_OF_WORDS\<close> lines of a text file, replaces the newline
  of each line by a null character, encodes the line as UTF-8 and appends it to
  \<^verbatim>\<open>wordtable.bin\<close>, adding up the byte lengths; then it writes the C fragment
  \<^verbatim>\<open>../src/globals/sizes.c\<close>.

  Python's \<^verbatim>\<open>str\<close> is a sequence of Unicode code points, \<^verbatim>\<open>bytes\<close> a sequence of
  integers below 256. The input file is opened in text mode: its bytes are decoded with
  the encoding of the platform, and the model starts from the decoded characters of the
  file.
\<close>

subsection \<open>Data\<close>

type_synonym byte = "8 word"
type_synonym codepoint = nat
type_synonym str = "codepoint list"

text \<open>An ASCII literal of the source as a \<^verbatim>\<open>str\<close>.\<close>

definition ascii :: "string \<Rightarrow> str" where
  "ascii s = map of_char s"

text \<open>
  The exceptions the script's own statements can raise: \<^verbatim>\<open>open(INPUT_FILE, "rt")\<close> on
  a file that cannot be opened (\<^verbatim>\<open>OSError\<close> or one of its subclasses), and
  \<^verbatim>\<open>bytes(..., encoding="utf-8")\<close> on a code point that UTF-8 cannot encode. A source
  whose bytes cannot be decoded and failures of the destinations (a full disk, a missing
  directory) belong to the environment and are not part of the model.
\<close>

datatype error = OSError | UnicodeEncodeError

subsection \<open>The library calls of the conversion loop\<close>

text \<open>
  Reading in text mode with the default \<^verbatim>\<open>newline=None\<close>: the line endings
  \<^verbatim>\<open>'\r\n'\<close> and \<^verbatim>\<open>'\r'\<close> reach the script as \<^verbatim>\<open>'\n'\<close> (13 is the carriage
  return, 10 the newline).
\<close>

fun universal_newlines :: "str \<Rightarrow> str" where
  "universal_newlines [] = []"
| "universal_newlines (c # cs) =
     (if c = 13 then
        (case cs of
           [] \<Rightarrow> [10]
         | d # ds \<Rightarrow> if d = 10 then 10 # universal_newlines ds else 10 # universal_newlines cs)
      else c # universal_newlines cs)"

text \<open>
  \<^verbatim>\<open>i.readline()\<close>: the text up to and including the next \<^verbatim>\<open>'\n'\<close>, or all that
  is left when there is none; the empty string at the end of the file (no exception).
  The second component is the text that stays unread.
\<close>

fun readline :: "str \<Rightarrow> str \<times> str" where
  "readline [] = ([], [])"
| "readline (c # cs) =
     (if c = 10 then ([c], cs)
      else (case readline cs of (line, rest) \<Rightarrow> (c # line, rest)))"

text \<open>
  \<^verbatim>\<open>s.replace(old, new)\<close> for one-character \<^verbatim>\<open>old\<close> and \<^verbatim>\<open>new\<close>: every occurrence
  is replaced.
\<close>

definition replace :: "str \<Rightarrow> codepoint \<Rightarrow> codepoint \<Rightarrow> str" where
  "replace s old new = map (\<lambda>c. if c = old then new else c) s"

text \<open>
  UTF-8: the bytes of one code point. Python refuses the surrogates U+D800..U+DFFF
  (\<^verbatim>\<open>UnicodeEncodeError\<close>); a \<^verbatim>\<open>str\<close> holds no element above U+10FFFF.
\<close>

definition encodable :: "codepoint \<Rightarrow> bool" where
  "encodable c \<longleftrightarrow> c < 0xD800 \<or> (0xE000 \<le> c \<and> c < 0x110000)"

definition utf8_char :: "codepoint \<Rightarrow> byte list" where
  "utf8_char c =
     (if c < 0x80 then [of_nat c]
      else if c < 0x800 then [of_nat (0xC0 + c div 64), of_nat (0x80 + c mod 64)]
      else if c < 0x10000 then
        [of_nat (0xE0 + c div 4096), of_nat (0x80 + c div 64 mod 64), of_nat (0x80 + c mod 64)]
      else
        [of_nat (0xF0 + c div 262144), of_nat (0x80 + c div 4096 mod 64),
         of_nat (0x80 + c div 64 mod 64), of_nat (0x80 + c mod 64)])"

definition encode_utf8 :: "str \<Rightarrow> byte list" where
  "encode_utf8 s = concat (map utf8_char s)"

text \<open>\<^verbatim>\<open>bytes(s, encoding="utf-8")\<close>: strict, so one bad code point fails the call.\<close>

definition bytes :: "str \<Rightarrow> error + byte list" where
  "bytes s = (if list_all encodable s then Inr (encode_utf8 s) else Inl UnicodeEncodeError)"

subsection \<open>The conversion loop\<close>

text \<open>
  The variables the loop changes: the unread text of \<^verbatim>\<open>i\<close>, the bytes written to
  \<^verbatim>\<open>o\<close> so far, and \<^verbatim>\<open>length\<close>.
\<close>

record vars =
  i_file :: str
  o_file :: "byte list"
  length_var :: int

text \<open>
  One pass of the body. The exception of \<^verbatim>\<open>bytes\<close> leaves the statement before
  \<^verbatim>\<open>length\<close> and \<^verbatim>\<open>o\<close> are touched.
\<close>

definition loop_body :: "vars \<Rightarrow> error + vars" where
  "loop_body v =
     (case readline (i_file v) of (text, rest) \<Rightarrow>
        (case bytes (replace text 10 0) of
           Inl e \<Rightarrow> Inl e
         | Inr line \<Rightarrow>
             Inr \<lparr>i_file = rest,
                  o_file = o_file v @ line,
                  length_var = length_var v + int (length line)\<rparr>))"

text \<open>
  \<^verbatim>\<open>for count in range(NUMBER_OF_WORDS)\<close>: the body runs that many times and never
  reads \<^verbatim>\<open>count\<close>. An exception ends the loop; what was written stays written, and
  the line of the failing pass has been read.
\<close>

fun for_range :: "nat \<Rightarrow> vars \<Rightarrow> error option \<times> vars" where
  "for_range 0 v = (None, v)"
| "for_range (Suc n) v =
     (case loop_body v of
        Inl e \<Rightarrow> (Some e, v\<lparr>i_file := snd (readline (i_file v))\<rparr>)
      | Inr v' \<Rightarrow> for_range n v')"

subsection \<open>The generated constants file\<close>

text \<open>\<^verbatim>\<open>"%d" % n\<close>: the decimal digits, with a minus sign for a negative number.\<close>

fun digits :: "nat \<Rightarrow> str" where
  "digits n = (if n < 10 then [48 + n] else digits (n div 10) @ [48 + n mod 10])"

definition format_d :: "int \<Rightarrow> str" where
  "format_d n = (if n < 0 then 45 # digits (nat (- n)) else digits (nat n))"

text \<open>
  The string written to \<^verbatim>\<open>sizes.c\<close>, for the argument of the \<^verbatim>\<open>%\<close> operator.
  The word count is the literal \<^verbatim>\<open>50000\<close> of the format string; 10 is the newline
  and 34 the double quote.
\<close>

definition sizes_text :: "int \<Rightarrow> str" where
  "sizes_text n =
     ascii ''#include <stdint.h>'' @ [10] @
     ascii ''#include <stddef.h>'' @ [10] @
     ascii ''#include '' @ [34] @ ascii ''cobalt.h'' @ [34] @ [10, 10] @
     ascii ''const uint16_t NUMBER_OF_WORDS = 50000;'' @ [10] @
     ascii ''const size_t WORDTABLE_STRLEN = '' @ format_d n @ ascii '';''"

subsection \<open>The script\<close>

text \<open>
  The three files the script touches: the characters of \<^verbatim>\<open>INPUT_FILE\<close> (\<open>None\<close> when
  it cannot be opened), the bytes of \<^verbatim>\<open>wordtable.bin\<close> and the text written to
  \<^verbatim>\<open>../src/globals/sizes.c\<close> (\<open>None\<close> when the file does not exist).
\<close>

record files =
  input_file :: "str option"
  wordtable_bin :: "byte list option"
  sizes_c :: "str option"

text \<open>
  The body under \<^verbatim>\<open>if __name__ == "__main__"\<close>, for a value of the module constant
  \<^verbatim>\<open>NUMBER_OF_WORDS\<close>. The result is the uncaught exception, if any, and the files as
  the run leaves them. \<^verbatim>\<open>INPUT_FILE\<close> is opened first, so a failure there leaves
  \<^verbatim>\<open>wordtable.bin\<close> as it was; mode \<^verbatim>\<open>"wb"\<close> truncates, and the \<^verbatim>\<open>with\<close>
  statement closes the file also when the loop raises.
\<close>

definition main :: "nat \<Rightarrow> files \<Rightarrow> error option \<times> files" where
  "main NUMBER_OF_WORDS fs =
     (case input_file fs of
        None \<Rightarrow> (Some OSError, fs)
      | Some text \<Rightarrow>
          (case for_range NUMBER_OF_WORDS
                  \<lparr>i_file = universal_newlines text, o_file = [], length_var = 0\<rparr> of
             (Some e, v) \<Rightarrow> (Some e, fs\<lparr>wordtable_bin := Some (o_file v)\<rparr>)
           | (None, v) \<Rightarrow>
               (None, fs\<lparr>wordtable_bin := Some (o_file v),
                          sizes_c := Some (sizes_text (length_var v - 1))\<rparr>)))"

subsection \<open>Notions of the specification\<close>

text \<open>
  The lines of a text, each with its newline; the last one has none when the text does
  not end in a newline.
\<close>

fun source_lines :: "str \<Rightarrow> str list" where
  "source_lines [] = []"
| "source_lines (c # cs) =
     (if c = 10 then [c] # source_lines cs
      else (case source_lines cs of
              [] \<Rightarrow> [[c]]
            | l # ls \<Rightarrow> (c # l) # ls))"


text \<open>
  Splitting a word table on its null bytes: every null byte ends an entry, and bytes
  after the last null byte form a final entry.
\<close>

fun split_on_nul :: "byte list \<Rightarrow> byte list list" where
  "split_on_nul [] = []"
| "split_on_nul (b # bs) =
     (if b = 0 then [] # split_on_nul bs
      else (case split_on_nul bs of
              [] \<Rightarrow> [[b]]
            | w # ws \<Rightarrow> (b # w) # ws))"

text \<open>
  The number that a decimal text denotes, as the C compiler reads the initialiser of a
  declaration: an optional minus sign and the digits, 48 being the digit zero.
\<close>

definition read_digits :: "str \<Rightarrow> nat" where
  "read_digits s = foldl (\<lambda>a c. 10 * a + (c - 48)) 0 s"

definition read_d :: "str \<Rightarrow> int" where
  "read_d s =
     (case s of
        [] \<Rightarrow> 0
      | c # cs \<Rightarrow> if c = 45 then - int (read_digits cs) else int (read_digits s))"

section \<open>Properties of the library calls\<close>

lemma digits_eq:
  "digits n = (if n < 10 then [48 + n] else digits (n div 10) @ [48 + n mod 10])"
  by (rule digits.simps)

declare digits.simps [simp del]

subsection \<open>Decimal numbers\<close>

lemma read_digits_snoc: "read_digits (s @ [c]) = 10 * read_digits s + (c - 48)"
  by (simp add: read_digits_def)

lemma read_digits_digits: "read_digits (digits n) = n"
proof (induction n rule: digits.induct)
  case (1 n)
  show ?case
  proof (cases "n < 10")
    case True
    then show ?thesis by (subst digits_eq) (simp add: read_digits_def)
  next
    case False
    with 1 have "read_digits (digits (n div 10)) = n div 10" by simp
    with False show ?thesis by (subst digits_eq) (simp add: read_digits_snoc)
  qed
qed

lemma digits_first: "\<exists>c cs. digits n = c # cs \<and> c \<noteq> 45"
proof (induction n rule: digits.induct)
  case (1 n)
  show ?case
  proof (cases "n < 10")
    case True
    then show ?thesis by (subst digits_eq) simp
  next
    case False
    with 1 obtain c cs where "digits (n div 10) = c # cs" "c \<noteq> 45" by blast
    with False show ?thesis by (subst digits_eq) simp
  qed
qed

text \<open>The text that \<^verbatim>\<open>%d\<close> produces denotes the number it was given.\<close>

lemma read_d_format_d: "read_d (format_d k) = k"
proof (cases "k < 0")
  case True
  then show ?thesis by (simp add: format_d_def read_d_def read_digits_digits)
next
  case False
  obtain c cs where d: "digits (nat k) = c # cs" "c \<noteq> 45"
    using digits_first [of "nat k"] by blast
  have "read_digits (digits (nat k)) = nat k" by (rule read_digits_digits)
  with d have "read_digits (c # cs) = nat k" by simp
  with False d show ?thesis by (simp add: format_d_def read_d_def)
qed

subsection \<open>Reading lines\<close>

lemma readline_append: "fst (readline s) @ snd (readline s) = s"
  by (induction s) (auto split: prod.splits)


text \<open>Reading one line takes the first of the lines and leaves the others.\<close>

lemma source_lines_unfold:
  "source_lines s =
     (if s = [] then [] else fst (readline s) # source_lines (snd (readline s)))"
proof (induction s)
  case Nil
  show ?case by simp
next
  case (Cons c cs)
  show ?case
  proof (cases "c = 10")
    case True
    then show ?thesis by simp
  next
    case False
    show ?thesis
    proof (cases cs)
      case Nil
      with False show ?thesis by simp
    next
      case (Cons d ds)
      with False Cons.IH show ?thesis
        by (simp split: prod.splits)
    qed
  qed
qed

lemma concat_source_lines: "concat (source_lines s) = s"
  by (induction s) (auto split: list.splits)

lemma source_lines_shape:
  "l \<in> set (source_lines s) \<Longrightarrow> l \<noteq> [] \<and> 10 \<notin> set (butlast l)"
  by (induction s arbitrary: l) (auto split: if_splits list.splits)

lemma first_lines_shape:
  assumes "\<forall>l\<in>set (take n (source_lines src)). last l = 10"
  shows "\<forall>l\<in>set (take n (source_lines src)).
           l \<noteq> [] \<and> last l = 10 \<and> 10 \<notin> set (butlast l)"
  using assms source_lines_shape [of _ src] by (meson in_set_takeD)

subsection \<open>Replacing\<close>

lemma replace_append: "replace (s @ t) old new = replace s old new @ replace t old new"
  by (simp add: replace_def)

lemma replace_no_newline: "10 \<notin> set (replace s 10 0)"
  by (auto simp: replace_def)

lemma replace_id: "old \<notin> set s \<Longrightarrow> replace s old new = s"
  by (induction s) (auto simp: replace_def)


subsection \<open>UTF-8\<close>

text \<open>
  A byte of a multi-byte sequence is at least 128, so it is neither the null byte nor
  the newline byte; a one-byte sequence is the code point itself.
\<close>

lemma high_byte:
  assumes "128 \<le> a" "x < k" "a + k \<le> 256"
  shows "(of_nat (a + x) :: byte) \<noteq> 0 \<and> (of_nat (a + x) :: byte) \<noteq> 10"
proof -
  from assms have "a + x < 256" by simp
  then have "unat (of_nat (a + x) :: byte) = a + x"
    by (simp only: unat_of_nat) simp
  moreover have "unat (0 :: byte) = 0" "unat (10 :: byte) = 10" by simp_all
  ultimately show ?thesis using assms(1) by auto
qed

lemma low_byte:
  assumes "x < 128"
  shows "((of_nat x :: byte) = 0 \<longleftrightarrow> x = 0) \<and> ((of_nat x :: byte) = 10 \<longleftrightarrow> x = 10)"
proof -
  from assms have "unat (of_nat x :: byte) = x" by (simp add: unat_of_nat)
  moreover have "unat (0 :: byte) = 0" "unat (10 :: byte) = 10" by simp_all
  ultimately show ?thesis by auto
qed

lemma utf8_char_high:
  assumes "encodable c" "\<not> c < 128"
  shows "list_all (\<lambda>b. b \<noteq> 0 \<and> b \<noteq> 10) (utf8_char c)"
proof -
  from assms(1) have c: "c < 0x110000" by (auto simp: encodable_def)
  have m: "c mod 64 < 64" "c div 64 mod 64 < 64" "c div 4096 mod 64 < 64" by simp_all
  have d1: "c < 0x800 \<Longrightarrow> c div 64 < 32" by simp
  have d2: "c < 0x10000 \<Longrightarrow> c div 4096 < 16" by simp
  from c have d3: "c div 262144 < 5" by simp
  consider (two) "c < 0x800" | (three) "\<not> c < 0x800" "c < 0x10000" | (four) "\<not> c < 0x10000"
    by blast
  then show ?thesis
  proof cases
    case two
    from assms(2) two
    have "utf8_char c = [of_nat (0xC0 + c div 64), of_nat (0x80 + c mod 64)]"
      unfolding utf8_char_def by (simp only: if_True if_False)
    moreover have "(of_nat (0xC0 + c div 64) :: byte) \<noteq> 0 \<and> (of_nat (0xC0 + c div 64) :: byte) \<noteq> 10"
      by (rule high_byte [OF _ d1 [OF two]]) simp_all
    moreover have "(of_nat (0x80 + c mod 64) :: byte) \<noteq> 0 \<and> (of_nat (0x80 + c mod 64) :: byte) \<noteq> 10"
      by (rule high_byte [OF _ m(1)]) simp_all
    ultimately show ?thesis by simp
  next
    case three
    from assms(2) three
    have "utf8_char c =
        [of_nat (0xE0 + c div 4096), of_nat (0x80 + c div 64 mod 64), of_nat (0x80 + c mod 64)]"
      unfolding utf8_char_def by (simp only: if_True if_False)
    moreover have "(of_nat (0xE0 + c div 4096) :: byte) \<noteq> 0 \<and> (of_nat (0xE0 + c div 4096) :: byte) \<noteq> 10"
      by (rule high_byte [OF _ d2 [OF three(2)]]) simp_all
    moreover have "(of_nat (0x80 + c div 64 mod 64) :: byte) \<noteq> 0 \<and>
        (of_nat (0x80 + c div 64 mod 64) :: byte) \<noteq> 10"
      by (rule high_byte [OF _ m(2)]) simp_all
    moreover have "(of_nat (0x80 + c mod 64) :: byte) \<noteq> 0 \<and> (of_nat (0x80 + c mod 64) :: byte) \<noteq> 10"
      by (rule high_byte [OF _ m(1)]) simp_all
    ultimately show ?thesis by simp
  next
    case four
    then have "\<not> c < 0x800" by simp
    with assms(2) four
    have "utf8_char c =
        [of_nat (0xF0 + c div 262144), of_nat (0x80 + c div 4096 mod 64),
         of_nat (0x80 + c div 64 mod 64), of_nat (0x80 + c mod 64)]"
      unfolding utf8_char_def by (simp only: if_True if_False)
    moreover have "(of_nat (0xF0 + c div 262144) :: byte) \<noteq> 0 \<and>
        (of_nat (0xF0 + c div 262144) :: byte) \<noteq> 10"
      by (rule high_byte [OF _ d3]) simp_all
    moreover have "(of_nat (0x80 + c div 4096 mod 64) :: byte) \<noteq> 0 \<and>
        (of_nat (0x80 + c div 4096 mod 64) :: byte) \<noteq> 10"
      by (rule high_byte [OF _ m(3)]) simp_all
    moreover have "(of_nat (0x80 + c div 64 mod 64) :: byte) \<noteq> 0 \<and>
        (of_nat (0x80 + c div 64 mod 64) :: byte) \<noteq> 10"
      by (rule high_byte [OF _ m(2)]) simp_all
    moreover have "(of_nat (0x80 + c mod 64) :: byte) \<noteq> 0 \<and> (of_nat (0x80 + c mod 64) :: byte) \<noteq> 10"
      by (rule high_byte [OF _ m(1)]) simp_all
    ultimately show ?thesis by simp
  qed
qed

lemma utf8_char_bytes:
  assumes "encodable c" "b \<in> set (utf8_char c)"
  shows "(b = 0 \<longrightarrow> c = 0) \<and> (b = 10 \<longrightarrow> c = 10)"
proof (cases "c < 128")
  case True
  with assms(2) low_byte [of c] show ?thesis by (auto simp: utf8_char_def)
next
  case False
  with assms utf8_char_high [of c] show ?thesis by (simp add: list_all_iff)
qed

lemma utf8_char_ascii: "utf8_char 0 = [0]" "utf8_char 10 = [10]"
  by (simp_all add: utf8_char_def)

lemma encode_utf8_append: "encode_utf8 (s @ t) = encode_utf8 s @ encode_utf8 t"
  by (simp add: encode_utf8_def)

lemma encode_utf8_bytes:
  "list_all encodable s \<Longrightarrow>
   (0 \<in> set (encode_utf8 s) \<longrightarrow> 0 \<in> set s) \<and> (10 \<in> set (encode_utf8 s) \<longrightarrow> 10 \<in> set s)"
  by (induction s) (auto simp: encode_utf8_def dest: utf8_char_bytes)

lemma encodable_replace: "list_all encodable s \<Longrightarrow> list_all encodable (replace s 10 0)"
  by (induction s) (auto simp: replace_def encodable_def)

lemma bytes_replace:
  "list_all encodable s \<Longrightarrow> bytes (replace s 10 0) = Inr (encode_utf8 (replace s 10 0))"
  by (simp add: bytes_def encodable_replace)

subsection \<open>Lines as entries of the word table\<close>

lemma encode_line:
  assumes "l \<noteq> []" "last l = 10" "10 \<notin> set (butlast l)"
  shows "encode_utf8 (replace l 10 0) = encode_utf8 (butlast l) @ [0]"
    and "encode_utf8 l = encode_utf8 (butlast l) @ [10]"
proof -
  from assms(1,2) have l: "l = butlast l @ [10]"
    by (metis append_butlast_last_id)
  have "replace l 10 0 = replace (butlast l) 10 0 @ replace [10] 10 0"
    by (subst l) (simp only: replace_append)
  also have "\<dots> = butlast l @ [0]"
    using assms(3) by (simp add: replace_id) (simp add: replace_def)
  finally have "replace l 10 0 = butlast l @ [0]" .
  then show "encode_utf8 (replace l 10 0) = encode_utf8 (butlast l) @ [0]"
    by (simp add: encode_utf8_append) (simp add: encode_utf8_def utf8_char_ascii)
  have "encode_utf8 l = encode_utf8 (butlast l @ [10])" using l by simp
  then show "encode_utf8 l = encode_utf8 (butlast l) @ [10]"
    by (simp add: encode_utf8_append) (simp add: encode_utf8_def utf8_char_ascii)
qed

lemma encode_lines:
  "\<forall>l\<in>set ls. l \<noteq> [] \<and> last l = 10 \<and> 10 \<notin> set (butlast l) \<Longrightarrow>
   encode_utf8 (replace (concat ls) 10 0) =
     concat (map (\<lambda>l. encode_utf8 (butlast l) @ [0]) ls)"
proof (induction ls)
  case Nil
  show ?case by (simp add: replace_def encode_utf8_def)
next
  case (Cons l ls)
  then have l: "l \<noteq> []" "last l = 10" "10 \<notin> set (butlast l)" by simp_all
  have "encode_utf8 (replace (concat (l # ls)) 10 0) =
          encode_utf8 (replace l 10 0) @ encode_utf8 (replace (concat ls) 10 0)"
    by (simp add: replace_append encode_utf8_append)
  with Cons encode_line(1) [OF l] show ?case by simp
qed

lemma split_on_nul_entry: "0 \<notin> set w \<Longrightarrow> split_on_nul (w @ 0 # bs) = w # split_on_nul bs"
  by (induction w) auto

lemma split_on_nul_table:
  "\<forall>w\<in>set ws. 0 \<notin> set w \<Longrightarrow> split_on_nul (concat (map (\<lambda>w. w @ [0]) ws)) = ws"
  by (induction ws) (auto simp: split_on_nul_entry)

subsection \<open>Line endings\<close>

lemma universal_newlines_encodable:
  "list_all encodable s \<Longrightarrow> list_all encodable (universal_newlines s)"
proof (induction s rule: universal_newlines.induct)
  case 1
  show ?case by simp
next
  case (2 c cs)
  have ten: "encodable 10" by (simp add: encodable_def)
  show ?case
  proof (cases "c = 13")
    case False
    with 2 show ?thesis by simp
  next
    case True
    show ?thesis
    proof (cases cs)
      case Nil
      with True ten show ?thesis by simp
    next
      case (Cons d ds)
      with True ten 2 show ?thesis by (cases "d = 10") simp_all
    qed
  qed
qed

text \<open>A text without carriage returns is read as it is.\<close>

lemma universal_newlines_prefix:
  "13 \<notin> set a \<Longrightarrow> universal_newlines (a @ b) = a @ universal_newlines b"
  by (induction a) auto

lemma universal_newlines_id: "13 \<notin> set s \<Longrightarrow> universal_newlines s = s"
  using universal_newlines_prefix [of s "[]"] by simp

lemma source_lines_line:
  "l \<noteq> [] \<Longrightarrow> last l = 10 \<Longrightarrow> 10 \<notin> set (butlast l) \<Longrightarrow>
   source_lines (l @ t) = l # source_lines t"
proof (induction l)
  case Nil
  then show ?case by simp
next
  case (Cons c l)
  show ?case
  proof (cases "l = []")
    case True
    with Cons.prems show ?thesis by simp
  next
    case False
    with Cons.prems have "c \<noteq> 10" "last l = 10" "10 \<notin> set (butlast l)" by auto
    with False Cons.IH show ?thesis by simp
  qed
qed

lemma source_lines_lines:
  "\<forall>l\<in>set ls. l \<noteq> [] \<and> last l = 10 \<and> 10 \<notin> set (butlast l) \<Longrightarrow>
   source_lines (concat ls @ t) = ls @ source_lines t"
  by (induction ls) (simp_all add: source_lines_line)

text \<open>
  When the first \<open>n\<close> lines of the file end in a newline and hold no carriage return,
  they are the first \<open>n\<close> lines that the script reads.
\<close>

lemma first_lines_read:
  assumes "n \<le> length (source_lines src)"
    and "\<forall>l\<in>set (take n (source_lines src)). last l = 10 \<and> 13 \<notin> set l"
  shows "take n (source_lines (universal_newlines src)) = take n (source_lines src)"
proof -
  let ?ls = "take n (source_lines src)"
  let ?rest = "concat (drop n (source_lines src))"
  have src: "src = concat ?ls @ ?rest"
    by (metis concat_source_lines append_take_drop_id concat_append)
  from assms(2) have "13 \<notin> set (concat ?ls)" by auto
  then have "universal_newlines (concat ?ls @ ?rest) = concat ?ls @ universal_newlines ?rest"
    by (rule universal_newlines_prefix)
  with src have "universal_newlines src = concat ?ls @ universal_newlines ?rest" by simp
  moreover from assms(2) have "\<forall>l\<in>set ?ls. last l = 10" by simp
  then have "\<forall>l\<in>set ?ls. l \<noteq> [] \<and> last l = 10 \<and> 10 \<notin> set (butlast l)"
    by (rule first_lines_shape)
  then have "source_lines (concat ?ls @ universal_newlines ?rest) =
      ?ls @ source_lines (universal_newlines ?rest)"
    by (rule source_lines_lines)
  ultimately have "source_lines (universal_newlines src) =
      ?ls @ source_lines (universal_newlines ?rest)"
    by simp
  moreover from assms(1) have "length ?ls = n" by simp
  ultimately show ?thesis by simp
qed

section \<open>The conversion loop and the script\<close>

text \<open>
  When every code point of the first \<open>n\<close> lines can be encoded, \<open>n\<close> passes of the loop
  consume these lines, append their conversion to the output and add its size to
  \<^verbatim>\<open>length\<close>. A text with fewer lines is consumed whole: \<open>take\<close> stops at the end.
\<close>

lemma for_range_lines:
  "list_all encodable (concat (take n (source_lines src))) \<Longrightarrow>
   for_range n \<lparr>i_file = src, o_file = out, length_var = len\<rparr> =
     (None,
      \<lparr>i_file = concat (drop n (source_lines src)),
       o_file = out @ encode_utf8 (replace (concat (take n (source_lines src))) 10 0),
       length_var =
         len + int (length (encode_utf8 (replace (concat (take n (source_lines src))) 10 0)))\<rparr>)"
proof (induction n arbitrary: src out len)
  case 0
  show ?case by (simp add: concat_source_lines replace_def encode_utf8_def)
next
  case (Suc n)
  show ?case
  proof (cases "src = []")
    case True
    have "loop_body \<lparr>i_file = [], o_file = out, length_var = len\<rparr> =
            Inr \<lparr>i_file = [], o_file = out, length_var = len\<rparr>"
      by (simp add: loop_body_def bytes_def replace_def encode_utf8_def)
    with True Suc.IH [of "[]" out len] show ?thesis by simp
  next
    case False
    obtain l r where lr: "readline src = (l, r)" by (cases "readline src")
    from False lr have lines: "source_lines src = l # source_lines r"
      using source_lines_unfold [of src] by simp
    from Suc.prems lines
    have enc_l: "list_all encodable l"
      and enc_r: "list_all encodable (concat (take n (source_lines r)))"
      by simp_all
    from lr enc_l
    have "loop_body \<lparr>i_file = src, o_file = out, length_var = len\<rparr> =
            Inr \<lparr>i_file = r, o_file = out @ encode_utf8 (replace l 10 0),
                 length_var = len + int (length (encode_utf8 (replace l 10 0)))\<rparr>"
      by (simp add: loop_body_def bytes_replace)
    with Suc.IH [OF enc_r] lines show ?thesis
      by (simp add: replace_append encode_utf8_append)
  qed
qed

text \<open>Two invariants of the loop, which hold for a run that raises as well.\<close>

lemma for_range_length:
  "for_range n v = (r, v') \<Longrightarrow>
   length_var v' - int (length (o_file v')) = length_var v - int (length (o_file v))"
proof (induction n arbitrary: v)
  case 0
  then show ?case by simp
next
  case (Suc n)
  show ?case
  proof (cases "loop_body v")
    case (Inl e)
    with Suc.prems show ?thesis by auto
  next
    case (Inr w)
    then have "length_var w - int (length (o_file w)) = length_var v - int (length (o_file v))"
      by (auto simp: loop_body_def split: prod.splits sum.splits)
    moreover from Inr Suc.prems have "for_range n w = (r, v')" by simp
    ultimately show ?thesis using Suc.IH by simp
  qed
qed

lemma for_range_no_newline:
  "for_range n v = (r, v') \<Longrightarrow> 10 \<notin> set (o_file v) \<Longrightarrow> 10 \<notin> set (o_file v')"
proof (induction n arbitrary: v)
  case 0
  then show ?case by simp
next
  case (Suc n)
  show ?case
  proof (cases "loop_body v")
    case (Inl e)
    with Suc.prems show ?thesis by auto
  next
    case (Inr w)
    obtain l rest where lr: "readline (i_file v) = (l, rest)" by (cases "readline (i_file v)")
    with Inr have enc: "list_all encodable (replace l 10 0)"
      and w: "o_file w = o_file v @ encode_utf8 (replace l 10 0)"
      by (auto simp: loop_body_def bytes_def split: if_splits)
    from encode_utf8_bytes [OF enc] replace_no_newline [of l]
    have "10 \<notin> set (encode_utf8 (replace l 10 0))" by blast
    with w Suc.prems(2) have "10 \<notin> set (o_file w)" by simp
    moreover from Inr Suc.prems have "for_range n w = (r, v')" by simp
    ultimately show ?thesis using Suc.IH by blast
  qed
qed

text \<open>The run of the script on a source whose first \<open>n\<close> lines can be encoded.\<close>

lemma main_lines:
  assumes "input_file fs = Some src"
    and "list_all encodable (concat (take n (source_lines (universal_newlines src))))"
  shows "main n fs =
    (None,
     fs\<lparr>wordtable_bin := Some (encode_utf8
          (replace (concat (take n (source_lines (universal_newlines src)))) 10 0)),
        sizes_c := Some (sizes_text
          (int (length (encode_utf8
             (replace (concat (take n (source_lines (universal_newlines src)))) 10 0))) - 1))\<rparr>)"
  using assms by (simp add: main_def for_range_lines)

lemma main_table:
  assumes "input_file fs = Some src"
    and "list_all encodable src"
    and "\<forall>l\<in>set (take n (source_lines (universal_newlines src))). last l = 10"
  shows "main n fs =
    (None,
     fs\<lparr>wordtable_bin :=
          Some (concat (map (\<lambda>l. encode_utf8 (butlast l) @ [0])
            (take n (source_lines (universal_newlines src))))),
        sizes_c := Some (sizes_text
          (int (length (concat (map (\<lambda>l. encode_utf8 (butlast l) @ [0])
             (take n (source_lines (universal_newlines src)))))) - 1))\<rparr>)"
proof -
  let ?txt = "universal_newlines src"
  have "set (concat (take n (source_lines ?txt))) \<subseteq> set (concat (source_lines ?txt))"
    by (auto dest: in_set_takeD)
  then have "set (concat (take n (source_lines ?txt))) \<subseteq> set ?txt"
    by (simp only: concat_source_lines)
  with universal_newlines_encodable [OF assms(2)]
  have "list_all encodable (concat (take n (source_lines ?txt)))"
    by (auto simp: list_all_iff)
  from main_lines [OF assms(1) this] encode_lines [OF first_lines_shape [OF assms(3)]]
  show ?thesis by simp
qed

subsection \<open>Running the script on a given input\<close>

lemma for_range_numeral:
  "for_range (numeral k) v =
     (case loop_body v of
        Inl e \<Rightarrow> (Some e, v\<lparr>i_file := snd (readline (i_file v))\<rparr>)
      | Inr v' \<Rightarrow> for_range (pred_numeral k) v')"
  by (simp add: numeral_eq_Suc)

lemma for_range_1:
  "for_range 1 v =
     (case loop_body v of
        Inl e \<Rightarrow> (Some e, v\<lparr>i_file := snd (readline (i_file v))\<rparr>)
      | Inr v' \<Rightarrow> (None, v'))"
  by (simp split: sum.splits)

lemmas run_simps =
  main_def for_range_numeral for_range_1 loop_body_def bytes_def replace_def encodable_def
  encode_utf8_def utf8_char_def sizes_text_def format_d_def digits_eq ascii_def

section \<open>The claims\<close>

subsection \<open>C1: a source with fewer lines than the word count\<close>

text \<open>
  Claim C1 says that a source with fewer than \<^verbatim>\<open>NUMBER_OF_WORDS\<close> lines makes the run
  fail and never complete normally. The script has no such check: \<^verbatim>\<open>readline\<close> returns
  the empty string at the end of the file, which adds nothing to the output. With a word
  count of 3 and the one-line source \<^verbatim>\<open>"ant\n"\<close> the run raises nothing, writes the four
  bytes \<^verbatim>\<open>61 6E 74 00\<close> and the constants file with \<^verbatim>\<open>WORDTABLE_STRLEN = 3\<close>.
\<close>

theorem short_source_counterexample:
  "length (source_lines (universal_newlines (ascii ''ant'' @ [10]))) < 3 \<and>
   main 3 \<lparr>input_file = Some (ascii ''ant'' @ [10]), wordtable_bin = None, sizes_c = None\<rparr> =
     (None,
      \<lparr>input_file = Some (ascii ''ant'' @ [10]),
       wordtable_bin = Some [0x61, 0x6E, 0x74, 0x00],
       sizes_c = Some
         (ascii ''#include <stdint.h>'' @ [10] @
          ascii ''#include <stddef.h>'' @ [10] @
          ascii ''#include '' @ [34] @ ascii ''cobalt.h'' @ [34] @ [10, 10] @
          ascii ''const uint16_t NUMBER_OF_WORDS = 50000;'' @ [10] @
          ascii ''const size_t WORDTABLE_STRLEN = 3;'')\<rparr>)"
  by (simp add: run_simps)

text \<open>
  Claim C1 as amended: when the source, as the script reads it, has fewer than
  \<^verbatim>\<open>NUMBER_OF_WORDS\<close> lines (and holds only code points that UTF-8 encodes, as every
  decoded text does), the run completes normally; \<^verbatim>\<open>wordtable.bin\<close> is the conversion
  of the whole source and \<^verbatim>\<open>WORDTABLE_STRLEN\<close> is the size of that output minus one.
\<close>

theorem short_source_completes:
  assumes "input_file fs = Some src"
    and "list_all encodable src"
    and "length (source_lines (universal_newlines src)) < n"
  shows "main n fs =
    (None,
     fs\<lparr>wordtable_bin := Some (encode_utf8 (replace (universal_newlines src) 10 0)),
        sizes_c := Some (sizes_text
          (int (length (encode_utf8 (replace (universal_newlines src) 10 0))) - 1))\<rparr>)"
proof -
  from assms(3)
  have "take n (source_lines (universal_newlines src)) = source_lines (universal_newlines src)"
    by simp
  with assms(1) universal_newlines_encodable [OF assms(2)] main_lines [of fs src n]
  show ?thesis
    by (simp add: concat_source_lines)
qed

theorem short_source_completes_witness:
  "length (source_lines (universal_newlines (ascii ''zzz'' @ [10]))) < 2 \<and>
   main 2 \<lparr>input_file = Some (ascii ''zzz'' @ [10]), wordtable_bin = None, sizes_c = None\<rparr> =
     (None,
      \<lparr>input_file = Some (ascii ''zzz'' @ [10]),
       wordtable_bin = Some [0x7A, 0x7A, 0x7A, 0x00],
       sizes_c = Some (sizes_text 3)\<rparr>)"
  using short_source_completes
    [of "\<lparr>input_file = Some (ascii ''zzz'' @ [10]), wordtable_bin = None, sizes_c = None\<rparr>"
        "ascii ''zzz'' @ [10]" 2]
  by (simp add: ascii_def encodable_def replace_def encode_utf8_def utf8_char_def)

subsection \<open>C2: the scenario \<^verbatim>\<open>ant, bat, cat\<close>\<close>

text \<open>
  Claim C2: for the word count 3 and the source \<^verbatim>\<open>"ant\nbat\ncat\n"\<close> the binary output
  is the 12 bytes \<^verbatim>\<open>61 6E 74 00 62 61 74 00 63 61 74 00\<close> and the constants file declares
  \<^verbatim>\<open>NUMBER_OF_WORDS = 3\<close> and \<^verbatim>\<open>WORDTABLE_STRLEN = 11\<close>. The run of the script on
  this input: the bytes and the table length are as claimed, and the declared word count
  is the literal 50000 of the format string, whatever the module constant is.
\<close>

theorem ant_bat_cat:
  "main 3 \<lparr>input_file = Some (ascii ''ant'' @ [10] @ ascii ''bat'' @ [10] @ ascii ''cat'' @ [10]),
           wordtable_bin = None, sizes_c = None\<rparr> =
     (None,
      \<lparr>input_file = Some (ascii ''ant'' @ [10] @ ascii ''bat'' @ [10] @ ascii ''cat'' @ [10]),
       wordtable_bin =
         Some [0x61, 0x6E, 0x74, 0x00, 0x62, 0x61, 0x74, 0x00, 0x63, 0x61, 0x74, 0x00],
       sizes_c = Some
         (ascii ''#include <stdint.h>'' @ [10] @
          ascii ''#include <stddef.h>'' @ [10] @
          ascii ''#include '' @ [34] @ ascii ''cobalt.h'' @ [34] @ [10, 10] @
          ascii ''const uint16_t NUMBER_OF_WORDS = 50000;'' @ [10] @
          ascii ''const size_t WORDTABLE_STRLEN = 11;'')\<rparr>)"
  by (simp add: run_simps)

subsection \<open>C3: a last line without a newline\<close>

text \<open>
  Claim C3: when the source has exactly \<^verbatim>\<open>NUMBER_OF_WORDS\<close> lines and the last one lacks
  its newline, the run succeeds and a null byte still follows the last word. The run of
  the script on the three lines \<^verbatim>\<open>"ant\nbat\ncat"\<close>: it succeeds, but the output is the 11
  bytes \<^verbatim>\<open>61 6E 74 00 62 61 74 00 63 61 74\<close>, which end in the letter \<^verbatim>\<open>t\<close>, and the
  constants file declares \<^verbatim>\<open>WORDTABLE_STRLEN = 10\<close>.
\<close>

theorem last_line_without_newline:
  "source_lines (ascii ''ant'' @ [10] @ ascii ''bat'' @ [10] @ ascii ''cat'') =
     [ascii ''ant'' @ [10], ascii ''bat'' @ [10], ascii ''cat''] \<and>
   main 3 \<lparr>input_file = Some (ascii ''ant'' @ [10] @ ascii ''bat'' @ [10] @ ascii ''cat''),
           wordtable_bin = None, sizes_c = None\<rparr> =
     (None,
      \<lparr>input_file = Some (ascii ''ant'' @ [10] @ ascii ''bat'' @ [10] @ ascii ''cat''),
       wordtable_bin =
         Some [0x61, 0x6E, 0x74, 0x00, 0x62, 0x61, 0x74, 0x00, 0x63, 0x61, 0x74],
       sizes_c = Some
         (ascii ''#include <stdint.h>'' @ [10] @
          ascii ''#include <stddef.h>'' @ [10] @
          ascii ''#include '' @ [34] @ ascii ''cobalt.h'' @ [34] @ [10, 10] @
          ascii ''const uint16_t NUMBER_OF_WORDS = 50000;'' @ [10] @
          ascii ''const size_t WORDTABLE_STRLEN = 10;'')\<rparr>)"
  by (simp add: run_simps)

subsection \<open>C4: splitting the word table gives the lines back\<close>

text \<open>
  Claim C4 says that for every source whose first \<^verbatim>\<open>NUMBER_OF_WORDS\<close> lines end in a
  newline, splitting the output on its null bytes gives exactly that many byte strings,
  and that these, each followed by a newline, are the lines of the source file. Two kinds
  of line break this. A line may hold a null character of its own, which the script copies
  to the output: with a word count of 1 and the single line \<^verbatim>\<open>"a\0b\n"\<close> the output
  \<^verbatim>\<open>61 00 62 00\<close> splits into two entries. And a line may end in \<^verbatim>\<open>"\r\n"\<close>, which
  the script reads as \<^verbatim>\<open>"\n"\<close>: from the single line \<^verbatim>\<open>"a\r\n"\<close> the output is
  \<^verbatim>\<open>61 00\<close>, which gives back \<^verbatim>\<open>61 0A\<close> and not the line \<^verbatim>\<open>61 0D 0A\<close>.
\<close>

theorem nul_in_word_counterexample:
  "source_lines [97, 0, 98, 10] = [[97, 0, 98, 10]] \<and>
   main 1 \<lparr>input_file = Some [97, 0, 98, 10], wordtable_bin = None, sizes_c = None\<rparr> =
     (None,
      \<lparr>input_file = Some [97, 0, 98, 10], wordtable_bin = Some [0x61, 0x00, 0x62, 0x00],
       sizes_c = Some (sizes_text 3)\<rparr>) \<and>
   split_on_nul [0x61, 0x00, 0x62, 0x00] = [[0x61], [0x62]] \<and>
   length (split_on_nul [0x61, 0x00, 0x62, 0x00]) \<noteq> 1 \<and>
   source_lines [97, 13, 10] = [[97, 13, 10]] \<and>
   main 1 \<lparr>input_file = Some [97, 13, 10], wordtable_bin = None, sizes_c = None\<rparr> =
     (None,
      \<lparr>input_file = Some [97, 13, 10], wordtable_bin = Some [0x61, 0x00],
       sizes_c = Some (sizes_text 1)\<rparr>) \<and>
   map (\<lambda>w. w @ [10]) (split_on_nul [0x61, 0x00]) = [[0x61, 0x0A]] \<and>
   map encode_utf8 (take 1 (source_lines [97, 13, 10])) = [[0x61, 0x0D, 0x0A]] \<and>
   map (\<lambda>w. w @ [10]) (split_on_nul [0x61, 0x00]) \<noteq>
     map encode_utf8 (take 1 (source_lines [97, 13, 10]))"
  by (simp add: main_def for_range_1 loop_body_def bytes_def replace_def encodable_def
      encode_utf8_def utf8_char_def)

text \<open>
  Claim C4 as amended: for every source with at least \<^verbatim>\<open>NUMBER_OF_WORDS\<close> lines whose
  first \<^verbatim>\<open>NUMBER_OF_WORDS\<close> lines each end in a newline and hold neither a null character
  nor a carriage return, the run succeeds, splitting \<^verbatim>\<open>wordtable.bin\<close> on its null bytes
  gives exactly \<^verbatim>\<open>NUMBER_OF_WORDS\<close> byte strings, and each of them followed by a newline
  byte is the UTF-8 encoding of the corresponding line of the source, in order.
\<close>

theorem roundtrip:
  assumes "input_file fs = Some src"
    and "list_all encodable src"
    and "n \<le> length (source_lines src)"
    and "\<forall>l\<in>set (take n (source_lines src)). last l = 10 \<and> 0 \<notin> set l \<and> 13 \<notin> set l"
  shows "fst (main n fs) = None \<and>
    (\<exists>out. wordtable_bin (snd (main n fs)) = Some out \<and>
       length (split_on_nul out) = n \<and>
       map (\<lambda>w. w @ [10]) (split_on_nul out) = map encode_utf8 (take n (source_lines src)))"
proof -
  let ?ls = "take n (source_lines src)"
  let ?ws = "map (\<lambda>l. encode_utf8 (butlast l)) ?ls"
  from assms(4) have nl: "\<forall>l\<in>set ?ls. last l = 10" by simp
  note shape = first_lines_shape [OF nl]
  from assms(4) have "\<forall>l\<in>set ?ls. last l = 10 \<and> 13 \<notin> set l" by simp
  from first_lines_read [OF assms(3) this]
  have read: "take n (source_lines (universal_newlines src)) = ?ls" .
  have enc: "list_all encodable l" if "l \<in> set ?ls" for l
  proof -
    from that have "l \<in> set (source_lines src)" by (rule in_set_takeD)
    then have "set l \<subseteq> set (concat (source_lines src))" by auto
    then have "set l \<subseteq> set src" by (simp only: concat_source_lines)
    with assms(2) show ?thesis by (auto simp: list_all_iff)
  qed
  have "0 \<notin> set (encode_utf8 (butlast l))" if "l \<in> set ?ls" for l
  proof -
    from enc [OF that] have "list_all encodable (butlast l)"
      by (auto simp: list_all_iff dest: in_set_butlastD)
    moreover from assms(4) that have "0 \<notin> set (butlast l)"
      by (auto dest: in_set_butlastD)
    ultimately show ?thesis using encode_utf8_bytes [of "butlast l"] by blast
  qed
  then have "\<forall>w\<in>set ?ws. 0 \<notin> set w" by auto
  then have split: "split_on_nul (concat (map (\<lambda>w. w @ [0]) ?ws)) = ?ws"
    by (rule split_on_nul_table)
  have table: "concat (map (\<lambda>l. encode_utf8 (butlast l) @ [0]) ?ls) =
      concat (map (\<lambda>w. w @ [0]) ?ws)"
    by (simp add: comp_def)
  have lines: "map (\<lambda>w. w @ [10]) ?ws = map encode_utf8 ?ls"
    using shape by (simp add: encode_line(2))
  from assms(3) have len: "length ?ws = n" by simp
  from nl read
  have "\<forall>l\<in>set (take n (source_lines (universal_newlines src))). last l = 10"
    by simp
  from main_table [OF assms(1,2) this] read
  have "main n fs =
    (None,
     fs\<lparr>wordtable_bin := Some (concat (map (\<lambda>l. encode_utf8 (butlast l) @ [0]) ?ls)),
        sizes_c := Some (sizes_text
          (int (length (concat (map (\<lambda>l. encode_utf8 (butlast l) @ [0]) ?ls))) - 1))\<rparr>)"
    by simp
  with split table lines len show ?thesis by simp
qed

theorem roundtrip_witness:
  "source_lines (ascii ''ant'' @ [10] @ ascii ''bat'' @ [10] @ ascii ''cat'' @ [10]) =
     [ascii ''ant'' @ [10], ascii ''bat'' @ [10], ascii ''cat'' @ [10]] \<and>
   (\<exists>out. wordtable_bin (snd (main 2
       \<lparr>input_file = Some (ascii ''ant'' @ [10] @ ascii ''bat'' @ [10] @ ascii ''cat'' @ [10]),
        wordtable_bin = None, sizes_c = None\<rparr>)) = Some out \<and>
     length (split_on_nul out) = 2 \<and>
     map (\<lambda>w. w @ [10]) (split_on_nul out) =
       [[0x61, 0x6E, 0x74, 0x0A], [0x62, 0x61, 0x74, 0x0A]])"
  using roundtrip
    [of "\<lparr>input_file = Some (ascii ''ant'' @ [10] @ ascii ''bat'' @ [10] @ ascii ''cat'' @ [10]),
          wordtable_bin = None, sizes_c = None\<rparr>"
        "ascii ''ant'' @ [10] @ ascii ''bat'' @ [10] @ ascii ''cat'' @ [10]" 2]
  by (simp add: ascii_def encodable_def encode_utf8_def utf8_char_def)

subsection \<open>C5: the emitted table length\<close>

text \<open>
  Claim C5: for every successful run, the number the loop has accumulated in
  \<^verbatim>\<open>length\<close> is the number of bytes written to \<^verbatim>\<open>wordtable.bin\<close>, and the value
  emitted as \<^verbatim>\<open>WORDTABLE_STRLEN\<close> is the size of that file minus one: the constants file
  ends in the declaration \<^verbatim>\<open>const size_t WORDTABLE_STRLEN = d;\<close> whose decimal text
  \<open>d\<close> denotes that number.
\<close>

theorem strlen_is_size_minus_one:
  assumes "fst (main n fs) = None"
  shows "\<exists>src v d. input_file fs = Some src \<and>
    for_range n \<lparr>i_file = universal_newlines src, o_file = [], length_var = 0\<rparr> =
      (None, v) \<and>
    length_var v = int (length (o_file v)) \<and>
    wordtable_bin (snd (main n fs)) = Some (o_file v) \<and>
    sizes_c (snd (main n fs)) =
      Some (ascii ''#include <stdint.h>'' @ [10] @
            ascii ''#include <stddef.h>'' @ [10] @
            ascii ''#include '' @ [34] @ ascii ''cobalt.h'' @ [34] @ [10, 10] @
            ascii ''const uint16_t NUMBER_OF_WORDS = 50000;'' @ [10] @
            ascii ''const size_t WORDTABLE_STRLEN = '' @ d @ ascii '';'') \<and>
    d = format_d (int (length (o_file v)) - 1) \<and>
    read_d d = int (length (o_file v)) - 1"
proof -
  from assms obtain src where src: "input_file fs = Some src"
    by (cases "input_file fs") (simp_all add: main_def)
  obtain r v where
    run: "for_range n \<lparr>i_file = universal_newlines src, o_file = [], length_var = 0\<rparr> = (r, v)"
    by (cases "for_range n \<lparr>i_file = universal_newlines src, o_file = [], length_var = 0\<rparr>")
  with assms src have r: "r = None"
    by (cases r) (simp_all add: main_def)
  from for_range_length [OF run] have len: "length_var v = int (length (o_file v))" by simp
  from src run r have "wordtable_bin (snd (main n fs)) = Some (o_file v)"
    and "sizes_c (snd (main n fs)) = Some (sizes_text (length_var v - 1))"
    by (simp_all add: main_def)
  with len have "wordtable_bin (snd (main n fs)) = Some (o_file v)"
    and "sizes_c (snd (main n fs)) =
      Some (ascii ''#include <stdint.h>'' @ [10] @
            ascii ''#include <stddef.h>'' @ [10] @
            ascii ''#include '' @ [34] @ ascii ''cobalt.h'' @ [34] @ [10, 10] @
            ascii ''const uint16_t NUMBER_OF_WORDS = 50000;'' @ [10] @
            ascii ''const size_t WORDTABLE_STRLEN = '' @
            format_d (int (length (o_file v)) - 1) @ ascii '';'')"
    by (simp_all only: sizes_text_def)
  with src run r len read_d_format_d [of "int (length (o_file v)) - 1"]
  show ?thesis by blast
qed

text \<open>
  On the three words \<^verbatim>\<open>ant\<close>, \<^verbatim>\<open>bat\<close>, \<^verbatim>\<open>cat\<close>: 12 bytes are written, and the file
  declares the table length 11.
\<close>

theorem strlen_is_size_minus_one_witness:
  "fst (main 3
     \<lparr>input_file = Some (ascii ''ant'' @ [10] @ ascii ''bat'' @ [10] @ ascii ''cat'' @ [10]),
      wordtable_bin = None, sizes_c = None\<rparr>) = None \<and>
   (\<exists>v d.
     for_range 3
       \<lparr>i_file =
          universal_newlines (ascii ''ant'' @ [10] @ ascii ''bat'' @ [10] @ ascii ''cat'' @ [10]),
        o_file = [], length_var = 0\<rparr> = (None, v) \<and>
     length_var v = 12 \<and>
     o_file v = [0x61, 0x6E, 0x74, 0x00, 0x62, 0x61, 0x74, 0x00, 0x63, 0x61, 0x74, 0x00] \<and>
     sizes_c (snd (main 3
       \<lparr>input_file = Some (ascii ''ant'' @ [10] @ ascii ''bat'' @ [10] @ ascii ''cat'' @ [10]),
        wordtable_bin = None, sizes_c = None\<rparr>)) =
       Some (ascii ''#include <stdint.h>'' @ [10] @
             ascii ''#include <stddef.h>'' @ [10] @
             ascii ''#include '' @ [34] @ ascii ''cobalt.h'' @ [34] @ [10, 10] @
             ascii ''const uint16_t NUMBER_OF_WORDS = 50000;'' @ [10] @
             ascii ''const size_t WORDTABLE_STRLEN = '' @ d @ ascii '';'') \<and>
     d = ascii ''11'' \<and>
     read_d d = 11)"
proof -
  let ?fs = "\<lparr>input_file = Some (ascii ''ant'' @ [10] @ ascii ''bat'' @ [10] @ ascii ''cat'' @ [10]),
      wordtable_bin = None, sizes_c = None\<rparr>"
  have run: "main 3 ?fs =
     (None,
      \<lparr>input_file = Some (ascii ''ant'' @ [10] @ ascii ''bat'' @ [10] @ ascii ''cat'' @ [10]),
       wordtable_bin =
         Some [0x61, 0x6E, 0x74, 0x00, 0x62, 0x61, 0x74, 0x00, 0x63, 0x61, 0x74, 0x00],
       sizes_c = Some (sizes_text 11)\<rparr>)"
    by (simp add: main_def for_range_numeral for_range_1 loop_body_def bytes_def replace_def
        encodable_def encode_utf8_def utf8_char_def ascii_def)
  then have ok: "fst (main 3 ?fs) = None"
    by simp
  have eleven: "format_d 11 = ascii ''11''"
    by (simp add: format_d_def digits_eq ascii_def)
  from strlen_is_size_minus_one [OF ok] obtain src v d
    where src: "input_file ?fs = Some src"
      and loop: "for_range 3 \<lparr>i_file = universal_newlines src, o_file = [], length_var = 0\<rparr> =
        (None, v)"
      and len: "length_var v = int (length (o_file v))"
      and out: "wordtable_bin (snd (main 3 ?fs)) = Some (o_file v)"
      and sz: "sizes_c (snd (main 3 ?fs)) =
        Some (ascii ''#include <stdint.h>'' @ [10] @
              ascii ''#include <stddef.h>'' @ [10] @
              ascii ''#include '' @ [34] @ ascii ''cobalt.h'' @ [34] @ [10, 10] @
              ascii ''const uint16_t NUMBER_OF_WORDS = 50000;'' @ [10] @
              ascii ''const size_t WORDTABLE_STRLEN = '' @ d @ ascii '';'')"
      and d: "d = format_d (int (length (o_file v)) - 1)"
      and rd: "read_d d = int (length (o_file v)) - 1"
    by blast
  from src have src': "src = ascii ''ant'' @ [10] @ ascii ''bat'' @ [10] @ ascii ''cat'' @ [10]"
    by simp
  from out run
  have o: "o_file v = [0x61, 0x6E, 0x74, 0x00, 0x62, 0x61, 0x74, 0x00, 0x63, 0x61, 0x74, 0x00]"
    by simp
  with len have l: "length_var v = 12" by simp
  from o d eleven have d': "d = ascii ''11''" by simp
  from o rd have rd': "read_d d = 11" by simp
  from ok loop [unfolded src'] l o sz d' rd' show ?thesis by blast
qed

subsection \<open>C6: the size of the word table\<close>

text \<open>
  Claim C6: for every source whose first \<^verbatim>\<open>NUMBER_OF_WORDS\<close> lines each end in a newline,
  the size of the binary output is the sum of the byte lengths of the words (the lines
  without their newline, in UTF-8) plus one delimiter byte for each word. The lines are
  those that the script reads.
\<close>

theorem table_length:
  assumes "input_file fs = Some src"
    and "list_all encodable src"
    and "n \<le> length (source_lines (universal_newlines src))"
    and "\<forall>l\<in>set (take n (source_lines (universal_newlines src))). last l = 10"
  shows "fst (main n fs) = None \<and>
    (\<exists>out. wordtable_bin (snd (main n fs)) = Some out \<and>
       length out =
         (\<Sum>l\<leftarrow>take n (source_lines (universal_newlines src)).
            length (encode_utf8 (butlast l))) + n)"
proof -
  let ?ls = "take n (source_lines (universal_newlines src))"
  have "length (concat (map (\<lambda>l. encode_utf8 (butlast l) @ [0]) ls)) =
          (\<Sum>l\<leftarrow>ls. length (encode_utf8 (butlast l))) + length ls" for ls :: "str list"
    by (induction ls) simp_all
  from this [of ?ls] assms(3)
  have "length (concat (map (\<lambda>l. encode_utf8 (butlast l) @ [0]) ?ls)) =
          (\<Sum>l\<leftarrow>?ls. length (encode_utf8 (butlast l))) + n"
    by simp
  with main_table [OF assms(1,2,4)] show ?thesis by simp
qed

text \<open>
  An instance with the two-byte \<^verbatim>\<open>U+00E9\<close> and the three-byte \<^verbatim>\<open>U+20AC\<close>, whose
  first line ends in \<^verbatim>\<open>"\r\n"\<close>: the words of the first two lines take 1 and 5 bytes.
\<close>

theorem table_length_witness:
  "source_lines (universal_newlines ([97, 13, 10] @ [0xE9, 0x20AC, 10] @ ascii ''cat'')) =
     [[97, 10], [0xE9, 0x20AC, 10], ascii ''cat''] \<and>
   (\<exists>out. wordtable_bin (snd (main 2
       \<lparr>input_file = Some ([97, 13, 10] @ [0xE9, 0x20AC, 10] @ ascii ''cat''),
        wordtable_bin = None, sizes_c = None\<rparr>)) = Some out \<and>
     length out = (1 + 5) + 2)"
proof -
  have "length (encode_utf8 [97]) = 1" "length (encode_utf8 [0xE9, 0x20AC]) = 5"
    by (simp_all add: encode_utf8_def utf8_char_def)
  with table_length
    [of "\<lparr>input_file = Some ([97, 13, 10] @ [0xE9, 0x20AC, 10] @ ascii ''cat''),
          wordtable_bin = None, sizes_c = None\<rparr>"
        "[97, 13, 10] @ [0xE9, 0x20AC, 10] @ ascii ''cat''" 2]
  show ?thesis
    by (simp add: ascii_def encodable_def)
qed

subsection \<open>C7: the constants file\<close>

text \<open>
  Claim C7: the constants file has the three include lines, a blank line, the declaration
  of \<^verbatim>\<open>NUMBER_OF_WORDS\<close> with the configured word count and the declaration of
  \<^verbatim>\<open>WORDTABLE_STRLEN\<close> with the accumulated length minus one. The run of the script for
  the word count 1 on the source \<^verbatim>\<open>"zzz\n"\<close>: the file has this structure and the table
  length 3, and it declares the word count 50000.
\<close>

theorem single_word_sizes_c:
  "main 1 \<lparr>input_file = Some (ascii ''zzz'' @ [10]), wordtable_bin = None, sizes_c = None\<rparr> =
     (None,
      \<lparr>input_file = Some (ascii ''zzz'' @ [10]),
       wordtable_bin = Some [0x7A, 0x7A, 0x7A, 0x00],
       sizes_c = Some
         (ascii ''#include <stdint.h>'' @ [10] @
          ascii ''#include <stddef.h>'' @ [10] @
          ascii ''#include '' @ [34] @ ascii ''cobalt.h'' @ [34] @ [10, 10] @
          ascii ''const uint16_t NUMBER_OF_WORDS = 50000;'' @ [10] @
          ascii ''const size_t WORDTABLE_STRLEN = 3;'')\<rparr>)"
  by (simp add: run_simps)

subsection \<open>C8: the outputs depend on the source alone\<close>

text \<open>
  Claim C8: two runs with the same word count on the same source give the same
  \<^verbatim>\<open>wordtable.bin\<close> and the same constants file. Whatever the two output files held
  before, the runs end alike (both normally or with the same exception), they leave the
  same \<^verbatim>\<open>wordtable.bin\<close> once the source could be opened, and the same constants file
  when they complete.
\<close>

theorem same_source_same_outputs:
  assumes "input_file fs = input_file fs'"
  shows "fst (main n fs) = fst (main n fs') \<and>
    (input_file fs \<noteq> None \<longrightarrow>
       wordtable_bin (snd (main n fs)) = wordtable_bin (snd (main n fs'))) \<and>
    (fst (main n fs) = None \<longrightarrow> sizes_c (snd (main n fs)) = sizes_c (snd (main n fs')))"
  using assms by (auto simp: main_def split: option.splits prod.splits)

text \<open>The second run starts from the files that the first run has left.\<close>

theorem same_source_same_outputs_witness:
  "fst (main 1 \<lparr>input_file = Some (ascii ''zzz'' @ [10]), wordtable_bin = Some [1, 2],
                sizes_c = None\<rparr>) = None \<and>
   fst (main 1 (snd (main 1 \<lparr>input_file = Some (ascii ''zzz'' @ [10]),
                  wordtable_bin = Some [1, 2], sizes_c = None\<rparr>))) = None \<and>
   wordtable_bin (snd (main 1 (snd (main 1 \<lparr>input_file = Some (ascii ''zzz'' @ [10]),
                  wordtable_bin = Some [1, 2], sizes_c = None\<rparr>)))) =
     Some [0x7A, 0x7A, 0x7A, 0x00] \<and>
   sizes_c (snd (main 1 (snd (main 1 \<lparr>input_file = Some (ascii ''zzz'' @ [10]),
                  wordtable_bin = Some [1, 2], sizes_c = None\<rparr>)))) =
     Some (sizes_text 3)"
proof -
  have run: "main 1 \<lparr>input_file = Some (ascii ''zzz'' @ [10]), wordtable_bin = Some [1, 2],
                sizes_c = None\<rparr> =
     (None,
      \<lparr>input_file = Some (ascii ''zzz'' @ [10]),
       wordtable_bin = Some [0x7A, 0x7A, 0x7A, 0x00],
       sizes_c = Some (sizes_text 3)\<rparr>)"
    by (simp add: main_def for_range_1 loop_body_def bytes_def replace_def
        encodable_def encode_utf8_def utf8_char_def ascii_def)
  have "input_file \<lparr>input_file = Some (ascii ''zzz'' @ [10]), wordtable_bin = Some [1, 2],
                sizes_c = None\<rparr> =
        input_file (snd (main 1 \<lparr>input_file = Some (ascii ''zzz'' @ [10]),
                wordtable_bin = Some [1, 2], sizes_c = None\<rparr>))"
    by (simp only: run) simp
  from same_source_same_outputs [OF this, of 1] show ?thesis
    by (simp only: run) simp
qed

subsection \<open>C9: replacing every newline or the first one\<close>


subsection \<open>C10: no newline byte in the word table\<close>

text \<open>
  Claim C10: \<^verbatim>\<open>wordtable.bin\<close> never holds a newline byte. This holds for every run that
  opens the source, also when the loop ends with an exception and the file holds only a
  part of the table.
\<close>

theorem no_newline_in_wordtable:
  assumes "input_file fs = Some src"
  shows "\<exists>out. wordtable_bin (snd (main n fs)) = Some out \<and> 10 \<notin> set out"
proof -
  obtain r v where
    run: "for_range n \<lparr>i_file = universal_newlines src, o_file = [], length_var = 0\<rparr> = (r, v)"
    by (cases "for_range n \<lparr>i_file = universal_newlines src, o_file = [], length_var = 0\<rparr>")
  from for_range_no_newline [OF run] have "10 \<notin> set (o_file v)" by simp
  with assms run show ?thesis by (cases r) (simp_all add: main_def)
qed

text \<open>An instance whose second line holds a surrogate, so that the run raises there.\<close>

theorem no_newline_in_wordtable_witness:
  "main 2 \<lparr>input_file = Some [97, 10, 0xD800, 10], wordtable_bin = None, sizes_c = None\<rparr> =
     (Some UnicodeEncodeError,
      \<lparr>input_file = Some [97, 10, 0xD800, 10], wordtable_bin = Some [0x61, 0x00],
       sizes_c = None\<rparr>) \<and>
   (\<exists>out. wordtable_bin (snd (main 2
       \<lparr>input_file = Some [97, 10, 0xD800, 10], wordtable_bin = None, sizes_c = None\<rparr>)) =
       Some out \<and> 10 \<notin> set out)"
proof -
  have run: "main 2 \<lparr>input_file = Some [97, 10, 0xD800, 10], wordtable_bin = None, sizes_c = None\<rparr> =
     (Some UnicodeEncodeError,
      \<lparr>input_file = Some [97, 10, 0xD800, 10], wordtable_bin = Some [0x61, 0x00],
       sizes_c = None\<rparr>)"
    by (simp add: main_def for_range_numeral for_range_1 loop_body_def bytes_def replace_def
        encodable_def encode_utf8_def utf8_char_def)
  from no_newline_in_wordtable
    [of "\<lparr>input_file = Some [97, 10, 0xD800, 10], wordtable_bin = None, sizes_c = None\<rparr>"
        "[97, 10, 0xD800, 10]" 2]
  have "\<exists>out. wordtable_bin (snd (main 2
       \<lparr>input_file = Some [97, 10, 0xD800, 10], wordtable_bin = None, sizes_c = None\<rparr>)) =
       Some out \<and> 10 \<notin> set out"
    by simp
  with run show ?thesis by (simp only: simp_thms)
qed

end
